theory Spec2Isabelle
  imports Main "HOL-Library.Word"
begin

section \<open>A row of the terminal text buffer (src/buffer/out/Row.cpp)\<close>

text \<open>
  \<open>ROW\<close> owns a glyph storage (\<open>CharRow\<close>) and an attribute storage (\<open>ATTR_ROW\<close>) and
  records its width. The member functions of \<open>ROW\<close> are embedded from Row.cpp. The two
  storages, the cell value type and the error macros are declared outside Row.cpp; they
  are modelled from the specification, each under a comment that says so.
\<close>

subsection \<open>Machine types, results and exceptions\<close>

type_synonym size_t = "64 word"
type_synonym UINT = "32 word"
type_synonym SHORT = "16 word" \<comment> \<open>signed 16 bit, read with \<open>sint\<close>\<close>
type_synonym wchar_t = "16 word"

text \<open>
  Modelled from the spec: the result type and the error macros that Row.cpp uses and
  headers outside the sources declare. A result is success (\<open>S_OK\<close>) or a failure code;
  \<open>FAILED\<close> holds of every code but \<open>S_OK\<close>. A contract violation is the invalid-argument
  error, a resource failure the out-of-memory error.
\<close>

datatype HRESULT = S_OK | E_INVALIDARG | E_OUTOFMEMORY | E_UNHANDLED_EXCEPTION

definition FAILED :: "HRESULT \<Rightarrow> bool" where
  "FAILED hr = (hr \<noteq> S_OK)"

text \<open>
  The exceptions that reach \<open>ROW\<close>: the one of \<open>THROW_HR_IF(E_INVALIDARG, ...)\<close>, the one of
  \<open>gsl::narrow\<close>, the allocation failure of a storage or of a vector, and the
  \<open>std::length_error\<close> of a vector asked for more elements than it can ever hold.
\<close>

datatype exn = invalid_argument | narrowing_error | bad_alloc | length_error

text \<open>\<open>CATCH_RETURN()\<close>: the result code that stands for a caught exception.\<close>

fun ResultFromCaughtException :: "exn \<Rightarrow> HRESULT" where
  "ResultFromCaughtException invalid_argument = E_INVALIDARG"
| "ResultFromCaughtException bad_alloc = E_OUTOFMEMORY"
| "ResultFromCaughtException narrowing_error = E_UNHANDLED_EXCEPTION"
| "ResultFromCaughtException length_error = E_UNHANDLED_EXCEPTION"

text \<open>
  \<open>gsl::narrow<T>(rowWidth)\<close> from a signed 16-bit value to an unsigned type at least as
  wide: a negative value does not survive the sign check and throws; any other value is
  kept.
\<close>

definition narrow :: "SHORT \<Rightarrow> exn + 'n::len word" where
  "narrow u = (if sint u < 0 then Inl narrowing_error else Inr (ucast u))"

subsection \<open>Glyph storage\<close>

text \<open>
  Modelled from the spec: the class \<open>CharRow\<close> (CharRow.hpp is not among the sources).
  The spec gives it per-column storage of the displayed glyph and of a width
  classification (narrow, leading half, trailing half, no glyph), with the operations
  \<open>resize(width) -> Result\<close>, \<open>reset()\<close>, \<open>clearCell(column)\<close>, \<open>glyphAt(column)\<close>,
  \<open>widthClassAt(column)\<close> and \<open>sizeInColumns()\<close>. Every per-column operation is
  bounds-checked and an out-of-range column is a contract violation. A resize keeps the
  columns that still exist and gives added columns the empty glyph; a resize that fails
  for lack of memory leaves the storage as it was. The value of the empty default is not
  fixed by the spec: a blank, narrow cell stands for it.
\<close>

type_synonym glyph = "wchar_t list"

datatype DbcsAttribute = Single | Leading | Trailing | NoGlyph

record CharRowCell =
  cell_glyph :: glyph
  cell_dbcs :: DbcsAttribute

definition empty_glyph :: glyph where
  "empty_glyph = [0x20]"

definition default_cell :: CharRowCell where
  "default_cell = \<lparr>cell_glyph = empty_glyph, cell_dbcs = Single\<rparr>"

record CharRow =
  m_data :: "CharRowCell list"

definition CharRow_ctor :: "size_t \<Rightarrow> CharRow" where
  \<comment> \<open>Modelled from the spec: the glyph storage starts with \<open>width\<close> empty columns.\<close>
  "CharRow_ctor rowWidth = \<lparr>m_data = replicate (unat rowWidth) default_cell\<rparr>"

definition CharRow_size :: "CharRow \<Rightarrow> size_t" where
  \<comment> \<open>Modelled from the spec: \<open>sizeInColumns() -> width\<close>.\<close>
  "CharRow_size c = of_nat (length (m_data c))"

definition CharRow_Reset :: "CharRow \<Rightarrow> CharRow" where
  \<comment> \<open>Modelled from the spec: \<open>reset()\<close> clears every column to the empty default; it always succeeds.\<close>
  "CharRow_Reset c = c\<lparr>m_data := map (\<lambda>_. default_cell) (m_data c)\<rparr>"

text \<open>The first argument tells whether the memory the resize asks for is granted.\<close>

definition CharRow_Resize :: "bool \<Rightarrow> size_t \<Rightarrow> CharRow \<Rightarrow> HRESULT \<times> CharRow" where
  \<comment> \<open>Modelled from the spec: \<open>resize(width) -> Result\<close>.\<close>
  "CharRow_Resize granted newSize c =
     (if granted
      then (S_OK, c\<lparr>m_data := take (unat newSize) (m_data c)
                       @ replicate (unat newSize - length (m_data c)) default_cell\<rparr>)
      else (E_OUTOFMEMORY, c))"

definition CharRow_ClearCell :: "size_t \<Rightarrow> CharRow \<Rightarrow> (exn + unit) \<times> CharRow" where
  \<comment> \<open>Modelled from the spec: \<open>clearCell(column)\<close>, bounds-checked.\<close>
  "CharRow_ClearCell column c =
     (if column \<ge> CharRow_size c then (Inl invalid_argument, c)
      else (Inr (), c\<lparr>m_data := (m_data c)[unat column := default_cell]\<rparr>))"

definition CharRow_GlyphAt :: "CharRow \<Rightarrow> size_t \<Rightarrow> exn + glyph" where
  \<comment> \<open>Modelled from the spec: \<open>glyphAt(column) -> glyph\<close>, bounds-checked.\<close>
  "CharRow_GlyphAt c column =
     (if column \<ge> CharRow_size c then Inl invalid_argument
      else Inr (cell_glyph (m_data c ! unat column)))"

definition CharRow_DbcsAttrAt :: "CharRow \<Rightarrow> size_t \<Rightarrow> exn + DbcsAttribute" where
  \<comment> \<open>Modelled from the spec: \<open>widthClassAt(column) -> classification\<close>, bounds-checked.\<close>
  "CharRow_DbcsAttrAt c column =
     (if column \<ge> CharRow_size c then Inl invalid_argument
      else Inr (cell_dbcs (m_data c ! unat column)))"

subsection \<open>Attribute storage\<close>

text \<open>
  Modelled from the spec: the class \<open>ATTR_ROW\<close>, its iterator and \<open>TextAttribute\<close> (their
  headers are not among the sources). The spec gives the storage one colour/style
  attribute per column, with the operations \<open>resize(width) -> Result\<close>,
  \<open>resetTo(attribute) -> Result\<close>, \<open>attributeAt(column)\<close> and a forward iterator with
  \<open>current()\<close> and \<open>advance()\<close>. How the runs are compressed is outside the spec, so the
  storage is modelled by its content per column. Every per-column read is bounds-checked.
  A reset makes every column of the current width the given attribute. A resize keeps the
  columns that still exist; the fill of added columns is the storage's own policy, here
  the attribute of the last column (the default attribute in an empty storage). A resize
  or reset that fails for lack of memory throws and leaves the storage as it was.
\<close>

type_synonym TextAttribute = "16 word"

record ATTR_ROW =
  m_list :: "TextAttribute list"

definition ATTR_ROW_ctor :: "UINT \<Rightarrow> TextAttribute \<Rightarrow> ATTR_ROW" where
  \<comment> \<open>Modelled from the spec: \<open>width\<close> columns all set to the fill attribute.\<close>
  "ATTR_ROW_ctor cchRowWidth attr = \<lparr>m_list = replicate (unat cchRowWidth) attr\<rparr>"

definition ATTR_ROW_width :: "ATTR_ROW \<Rightarrow> size_t" where
  \<comment> \<open>Modelled from the spec: the width of the attribute storage.\<close>
  "ATTR_ROW_width a = of_nat (length (m_list a))"

definition ATTR_ROW_Reset :: "bool \<Rightarrow> TextAttribute \<Rightarrow> ATTR_ROW \<Rightarrow> (exn + unit) \<times> ATTR_ROW" where
  \<comment> \<open>Modelled from the spec: \<open>resetTo(attribute) -> Result\<close>, one run over the current width.\<close>
  "ATTR_ROW_Reset granted attr a =
     (if granted then (Inr (), a\<lparr>m_list := map (\<lambda>_. attr) (m_list a)\<rparr>)
      else (Inl bad_alloc, a))"

definition ATTR_ROW_Resize :: "bool \<Rightarrow> size_t \<Rightarrow> ATTR_ROW \<Rightarrow> (exn + unit) \<times> ATTR_ROW" where
  \<comment> \<open>Modelled from the spec: \<open>resize(width) -> Result\<close>.\<close>
  "ATTR_ROW_Resize granted newWidth a =
     (if granted
      then (Inr (), a\<lparr>m_list := take (unat newWidth) (m_list a)
                         @ replicate (unat newWidth - length (m_list a))
                             (if m_list a = [] then 0 else last (m_list a))\<rparr>)
      else (Inl bad_alloc, a))"

definition ATTR_ROW_GetAttrByColumn :: "ATTR_ROW \<Rightarrow> size_t \<Rightarrow> exn + TextAttribute" where
  \<comment> \<open>Modelled from the spec: \<open>attributeAt(column) -> attribute\<close>, bounds-checked.\<close>
  "ATTR_ROW_GetAttrByColumn a column =
     (if column \<ge> ATTR_ROW_width a then Inl invalid_argument
      else Inr (m_list a ! unat column))"

text \<open>
  The iterator is the column it stands at; \<open>std::next(it, n)\<close> moves it \<open>n\<close> columns on.
\<close>

type_synonym const_iterator = size_t

definition ATTR_ROW_begin :: "ATTR_ROW \<Rightarrow> const_iterator" where
  \<comment> \<open>Modelled from the spec: the forward iterator at column 0.\<close>
  "ATTR_ROW_begin a = 0"

definition std_next :: "const_iterator \<Rightarrow> size_t \<Rightarrow> const_iterator" where
  "std_next it n = it + n"

definition iterator_deref :: "ATTR_ROW \<Rightarrow> const_iterator \<Rightarrow> exn + TextAttribute" where
  \<comment> \<open>Modelled from the spec: \<open>iterator.current() -> attribute\<close>, bounds-checked.\<close>
  "iterator_deref a it =
     (if it \<ge> ATTR_ROW_width a then Inl invalid_argument else Inr (m_list a ! unat it))"

definition iterator_incr :: "const_iterator \<Rightarrow> const_iterator" where
  \<comment> \<open>Modelled from the spec: \<open>iterator.advance()\<close>.\<close>
  "iterator_incr it = it + 1"

subsection \<open>The cell value\<close>

text \<open>
  Modelled from the spec: \<open>OutputCell\<close>, a snapshot of one column: glyph, width
  classification and attribute.
\<close>

record OutputCell =
  glyph_of :: glyph
  dbcs_of :: DbcsAttribute
  attr_of :: TextAttribute

subsection \<open>ROW\<close>

text \<open>
  The members \<open>_id\<close>, \<open>_rowWidth\<close>, \<open>_charRow\<close>, \<open>_attrRow\<close> and \<open>_pParent\<close>; the parent
  text buffer is the address held.
\<close>

type_synonym TextBuffer_ptr = nat

record ROW =
  m_id :: SHORT
  m_rowWidth :: size_t
  m_charRow :: CharRow
  m_attrRow :: ATTR_ROW
  m_pParent :: TextBuffer_ptr

text \<open>
  \<open>ROW::ROW\<close>: each \<open>gsl::narrow\<close> of the width may throw. The pointer to the row that the
  glyph storage receives is not kept in the model.
\<close>

definition ROW_ctor :: "SHORT \<Rightarrow> SHORT \<Rightarrow> TextAttribute \<Rightarrow> TextBuffer_ptr \<Rightarrow> exn + ROW" where
  "ROW_ctor rowId rowWidth fillAttribute pParent =
     (case (narrow rowWidth :: exn + size_t) of
        Inl e \<Rightarrow> Inl e
      | Inr w \<Rightarrow>
          (case (narrow rowWidth :: exn + size_t) of
             Inl e \<Rightarrow> Inl e
           | Inr wc \<Rightarrow>
               (case (narrow rowWidth :: exn + UINT) of
                  Inl e \<Rightarrow> Inl e
                | Inr wa \<Rightarrow>
                    Inr \<lparr>m_id = rowId, m_rowWidth = w, m_charRow = CharRow_ctor wc,
                         m_attrRow = ATTR_ROW_ctor wa fillAttribute, m_pParent = pParent\<rparr>)))"

definition ROW_size :: "ROW \<Rightarrow> size_t" where
  "ROW_size r = m_rowWidth r"

definition ROW_GetId :: "ROW \<Rightarrow> SHORT" where
  "ROW_GetId r = m_id r"

definition ROW_SetId :: "SHORT \<Rightarrow> ROW \<Rightarrow> ROW" where
  "ROW_SetId ident r = r\<lparr>m_id := ident\<rparr>"

text \<open>
  \<open>ROW::Reset\<close>: the glyph storage is reset outside the \<open>try\<close>; an exception of the
  attribute reset is caught and turned into \<open>false\<close>. The first argument is the memory
  grant of the attribute storage.
\<close>

definition ROW_Reset :: "bool \<Rightarrow> TextAttribute \<Rightarrow> ROW \<Rightarrow> bool \<times> ROW" where
  "ROW_Reset granted Attr r =
     (let r1 = r\<lparr>m_charRow := CharRow_Reset (m_charRow r)\<rparr> in
      case ATTR_ROW_Reset granted Attr (m_attrRow r1) of
        (Inl e, a) \<Rightarrow> (False, r1\<lparr>m_attrRow := a\<rparr>)
      | (Inr u, a) \<Rightarrow> (True, r1\<lparr>m_attrRow := a\<rparr>))"

text \<open>
  \<open>ROW::Resize\<close>: \<open>RETURN_IF_FAILED\<close> on the glyph resize, \<open>CATCH_RETURN\<close> around the
  attribute resize, then the assignment of \<open>_rowWidth\<close>. The first two arguments are the
  memory grants of the glyph storage and of the attribute storage.
\<close>

definition ROW_Resize :: "bool \<Rightarrow> bool \<Rightarrow> size_t \<Rightarrow> ROW \<Rightarrow> HRESULT \<times> ROW" where
  "ROW_Resize grantedChar grantedAttr width r =
     (case CharRow_Resize grantedChar width (m_charRow r) of
        (hr, c) \<Rightarrow>
          (let r1 = r\<lparr>m_charRow := c\<rparr> in
           if FAILED hr then (hr, r1)
           else
             (case ATTR_ROW_Resize grantedAttr width (m_attrRow r1) of
                (Inl e, a) \<Rightarrow> (ResultFromCaughtException e, r1\<lparr>m_attrRow := a\<rparr>)
              | (Inr u, a) \<Rightarrow> (S_OK, r1\<lparr>m_attrRow := a, m_rowWidth := width\<rparr>))))"

text \<open>\<open>ROW::ClearColumn\<close>: the check is against the size of the glyph storage.\<close>

definition ROW_ClearColumn :: "size_t \<Rightarrow> ROW \<Rightarrow> (exn + unit) \<times> ROW" where
  "ROW_ClearColumn column r =
     (if column \<ge> CharRow_size (m_charRow r) then (Inl invalid_argument, r)
      else
        (case CharRow_ClearCell column (m_charRow r) of
           (res, c) \<Rightarrow> (res, r\<lparr>m_charRow := c\<rparr>)))"

text \<open>
  The loop of \<open>ROW::AsCells(startIndex, count)\<close>: \<open>i\<close> and the iterator advance together;
  an exception of a storage ends the call.
\<close>

function AsCells_loop ::
  "ROW \<Rightarrow> size_t \<Rightarrow> size_t \<Rightarrow> size_t \<Rightarrow> const_iterator \<Rightarrow> OutputCell list
     \<Rightarrow> exn + OutputCell list" where
  "AsCells_loop r startIndex count i it cells =
     (if i < count
      then
        (let index = startIndex + i in
         case CharRow_GlyphAt (m_charRow r) index of
           Inl e \<Rightarrow> Inl e
         | Inr glyph \<Rightarrow>
             (case CharRow_DbcsAttrAt (m_charRow r) index of
                Inl e \<Rightarrow> Inl e
              | Inr dbcs \<Rightarrow>
                  (case iterator_deref (m_attrRow r) it of
                     Inl e \<Rightarrow> Inl e
                   | Inr attr \<Rightarrow>
                       AsCells_loop r startIndex count (i + 1) (iterator_incr it)
                         (cells @ [\<lparr>glyph_of = glyph, dbcs_of = dbcs, attr_of = attr\<rparr>]))))
      else Inr cells)"
  by pat_completeness auto
termination
proof (relation "measure (\<lambda>(r, startIndex, count, i, it, cells). unat count - unat i)")
  show "wf (measure (\<lambda>(r, startIndex, count, i, it, cells). unat count - unat i))"
    by simp
next
  fix r :: ROW and startIndex count i it :: size_t and cells :: "OutputCell list"
    and x xa y xb ya xc yb
  assume lt: "i < count"
  have less: "unat i < unat count"
    using lt by (simp add: word_less_nat_alt)
  moreover have "unat count < 2 ^ 64"
    using unsigned_less [of count] by simp
  ultimately have "unat (i + 1) = unat i + 1"
    by (simp add: unat_word_ariths)
  with less
  show "((r, startIndex, count, i + 1, iterator_incr it,
      cells @ [\<lparr>glyph_of = yb, dbcs_of = ya, attr_of = xc\<rparr>]), r, startIndex, count, i, it, cells)
    \<in> measure (\<lambda>(r, startIndex, count, i, it, cells). unat count - unat i)"
    by simp
qed

declare AsCells_loop.simps [simp del]

text \<open>
  \<open>cells.reserve(count)\<close> on the new, empty vector is the one allocation of
  \<open>ROW::AsCells\<close>. It throws \<open>std::length_error\<close> when \<open>count\<close> exceeds \<open>max_size()\<close>,
  whatever the memory; for \<open>count = 0\<close> it allocates nothing; otherwise it allocates and
  throws \<open>std::bad_alloc\<close> when it does not get the memory. \<open>max_size()\<close> depends on the
  size of \<open>OutputCell\<close>, which the sources do not give: it is the first argument of the
  three overloads. Their second argument tells whether the memory is granted.
\<close>

definition vector_reserve :: "size_t \<Rightarrow> bool \<Rightarrow> size_t \<Rightarrow> exn + unit" where
  "vector_reserve max_size granted n =
     (if max_size < n then Inl length_error
      else if n = 0 then Inr ()
      else if granted then Inr ()
      else Inl bad_alloc)"

definition ROW_AsCells2 ::
  "size_t \<Rightarrow> bool \<Rightarrow> size_t \<Rightarrow> size_t \<Rightarrow> ROW \<Rightarrow> exn + OutputCell list" where
  "ROW_AsCells2 max_size granted startIndex count r =
     (case vector_reserve max_size granted count of
        Inl e \<Rightarrow> Inl e
      | Inr u \<Rightarrow>
          AsCells_loop r startIndex count 0
            (std_next (ATTR_ROW_begin (m_attrRow r)) startIndex) [])"

definition ROW_AsCells1 :: "size_t \<Rightarrow> bool \<Rightarrow> size_t \<Rightarrow> ROW \<Rightarrow> exn + OutputCell list" where
  "ROW_AsCells1 max_size granted startIndex r =
     ROW_AsCells2 max_size granted startIndex (ROW_size r - startIndex) r"

definition ROW_AsCells0 :: "size_t \<Rightarrow> bool \<Rightarrow> ROW \<Rightarrow> exn + OutputCell list" where
  "ROW_AsCells0 max_size granted r = ROW_AsCells2 max_size granted 0 (ROW_size r) r"

definition ROW_at :: "size_t \<Rightarrow> ROW \<Rightarrow> exn + OutputCell" where
  "ROW_at column r =
     (case CharRow_GlyphAt (m_charRow r) column of
        Inl e \<Rightarrow> Inl e
      | Inr glyph \<Rightarrow>
          (case CharRow_DbcsAttrAt (m_charRow r) column of
             Inl e \<Rightarrow> Inl e
           | Inr dbcs \<Rightarrow>
               (case ATTR_ROW_GetAttrByColumn (m_attrRow r) column of
                  Inl e \<Rightarrow> Inl e
                | Inr attr \<Rightarrow> Inr \<lparr>glyph_of = glyph, dbcs_of = dbcs, attr_of = attr\<rparr>)))"

subsection \<open>Notions the properties are stated with\<close>

text \<open>The three widths of a row agree.\<close>

definition width_invariant :: "ROW \<Rightarrow> bool" where
  "width_invariant r =
     (CharRow_size (m_charRow r) = m_rowWidth r \<and> ATTR_ROW_width (m_attrRow r) = m_rowWidth r)"

text \<open>What the two storages hold for column \<open>n\<close>, as a cell.\<close>

definition cell_at :: "ROW \<Rightarrow> nat \<Rightarrow> OutputCell" where
  "cell_at r n =
     \<lparr>glyph_of = cell_glyph (m_data (m_charRow r) ! n),
      dbcs_of = cell_dbcs (m_data (m_charRow r) ! n),
      attr_of = m_list (m_attrRow r) ! n\<rparr>"

text \<open>The number of leading columns that both storages hold.\<close>

definition stored_width :: "ROW \<Rightarrow> size_t" where
  "stored_width r = min (CharRow_size (m_charRow r)) (ATTR_ROW_width (m_attrRow r))"

text \<open>
  A call of \<open>Resize\<close> or \<open>Reset\<close> with the memory grants it meets; \<open>perform\<close> gives whether
  the call reports success and the row it leaves; \<open>perform_all\<close> gives that for each call of
  a sequence in turn.
\<close>

datatype call = Call_Resize bool bool size_t | Call_Reset bool TextAttribute

fun perform :: "call \<Rightarrow> ROW \<Rightarrow> bool \<times> ROW" where
  "perform (Call_Resize grantedChar grantedAttr width) r =
     (case ROW_Resize grantedChar grantedAttr width r of (hr, r') \<Rightarrow> (\<not> FAILED hr, r'))"
| "perform (Call_Reset granted Attr) r = ROW_Reset granted Attr r"

fun perform_all :: "ROW \<Rightarrow> call list \<Rightarrow> (bool \<times> ROW) list" where
  "perform_all r [] = []"
| "perform_all r (c # cs) = (case perform c r of (ok, r') \<Rightarrow> (ok, r') # perform_all r' cs)"

text \<open>The row that call \<open>k\<close> of a sequence starts from.\<close>

definition row_before :: "ROW \<Rightarrow> call list \<Rightarrow> nat \<Rightarrow> ROW" where
  "row_before r cs k = (if k = 0 then r else snd (perform_all r cs ! (k - 1)))"

text \<open>
  A row of width 3 for the concrete checks: a narrow glyph, then a wide glyph in two
  halves; attributes 1, 1, 2.
\<close>

definition sample_row :: ROW where
  "sample_row =
     \<lparr>m_id = 5, m_rowWidth = 3,
      m_charRow = \<lparr>m_data = [\<lparr>cell_glyph = [0x61], cell_dbcs = Single\<rparr>,
                              \<lparr>cell_glyph = [0x4E2D], cell_dbcs = Leading\<rparr>,
                              \<lparr>cell_glyph = [0x4E2D], cell_dbcs = Trailing\<rparr>]\<rparr>,
      m_attrRow = \<lparr>m_list = [1, 1, 2]\<rparr>,
      m_pParent = 0\<rparr>"

text \<open>The row that \<open>ROW_ctor 0 2 7 0\<close> constructs.\<close>

definition fresh_row :: ROW where
  "fresh_row =
     \<lparr>m_id = 0, m_rowWidth = 2,
      m_charRow = \<lparr>m_data = [default_cell, default_cell]\<rparr>,
      m_attrRow = \<lparr>m_list = [7, 7]\<rparr>,
      m_pParent = 0\<rparr>"

text \<open>
  The row that \<open>ROW_ctor 0 3 7 0\<close> constructs, and the rows left when that row meets a
  \<open>Resize\<close> to 2, or to 5, that fails at its attribute step and then a \<open>Reset\<close> to
  attribute 9 that succeeds.
\<close>

definition fresh_row3 :: ROW where
  "fresh_row3 =
     \<lparr>m_id = 0, m_rowWidth = 3,
      m_charRow = \<lparr>m_data = [default_cell, default_cell, default_cell]\<rparr>,
      m_attrRow = \<lparr>m_list = [7, 7, 7]\<rparr>,
      m_pParent = 0\<rparr>"

definition shrunk_row :: ROW where
  "shrunk_row =
     \<lparr>m_id = 0, m_rowWidth = 3,
      m_charRow = \<lparr>m_data = [default_cell, default_cell]\<rparr>,
      m_attrRow = \<lparr>m_list = [9, 9, 9]\<rparr>,
      m_pParent = 0\<rparr>"

definition grown_row :: ROW where
  "grown_row =
     \<lparr>m_id = 0, m_rowWidth = 3,
      m_charRow = \<lparr>m_data = [default_cell, default_cell, default_cell, default_cell,
                              default_cell]\<rparr>,
      m_attrRow = \<lparr>m_list = [9, 9, 9]\<rparr>,
      m_pParent = 0\<rparr>"

text \<open>The largest \<open>max_size()\<close> a vector can have where \<open>size_t\<close> has 64 bits.\<close>

definition sample_max_size :: size_t where
  "sample_max_size = 0x7FFFFFFFFFFFFFFF"

section \<open>Properties\<close>

subsection \<open>The width invariant\<close>

lemma ucast_short_twice: "(ucast (ucast (u::16 word) :: 32 word) :: 64 word) = ucast u"
  by (simp add: ucast_up_ucast is_up)

lemma ROW_ctor_Inr:
  "ROW_ctor rowId rowWidth fill p = Inr r \<Longrightarrow>
     r = \<lparr>m_id = rowId, m_rowWidth = ucast rowWidth, m_charRow = CharRow_ctor (ucast rowWidth),
          m_attrRow = ATTR_ROW_ctor (ucast rowWidth) fill, m_pParent = p\<rparr>"
  by (auto simp: ROW_ctor_def narrow_def split: if_splits)

lemma width_invariant_ctor:
  "ROW_ctor rowId rowWidth fill p = Inr r \<Longrightarrow> width_invariant r"
proof -
  assume "ROW_ctor rowId rowWidth fill p = Inr r"
  note r = ROW_ctor_Inr [OF this]
  have "(of_nat (unat (ucast rowWidth :: 32 word)) :: 64 word) = ucast rowWidth"
    using ucast_short_twice [of rowWidth] by (simp add: unsigned_of_nat) 
  then show ?thesis
    by (simp add: r width_invariant_def CharRow_size_def CharRow_ctor_def
        ATTR_ROW_width_def ATTR_ROW_ctor_def)
qed

lemma CharRow_size_Resize:
  "CharRow_Resize True w c = (hr, c') \<Longrightarrow> CharRow_size c' = w"
proof -
  assume "CharRow_Resize True w c = (hr, c')"
  then have "m_data c' = take (unat w) (m_data c)
      @ replicate (unat w - length (m_data c)) default_cell"
    by (auto simp: CharRow_Resize_def)
  then have "length (m_data c') = unat w"
    by simp
  then show ?thesis
    by (simp add: CharRow_size_def)
qed

lemma ATTR_ROW_width_Resize:
  "ATTR_ROW_Resize True w a = (res, a') \<Longrightarrow> ATTR_ROW_width a' = w"
proof -
  assume "ATTR_ROW_Resize True w a = (res, a')"
  then have "m_list a' = take (unat w) (m_list a)
      @ replicate (unat w - length (m_list a)) (if m_list a = [] then 0 else last (m_list a))"
    by (auto simp: ATTR_ROW_Resize_def)
  then have "length (m_list a') = unat w"
    by simp
  then show ?thesis
    by (simp add: ATTR_ROW_width_def)
qed

lemma width_invariant_Resize:
  "ROW_Resize gc ga w r = (hr, r') \<Longrightarrow> \<not> FAILED hr \<Longrightarrow> width_invariant r'"
proof -
  assume res: "ROW_Resize gc ga w r = (hr, r')" and ok: "\<not> FAILED hr"
  obtain hc c where c: "CharRow_Resize gc w (m_charRow r) = (hc, c)"
    by (cases "CharRow_Resize gc w (m_charRow r)")
  obtain ra a where a: "ATTR_ROW_Resize ga w (m_attrRow r) = (ra, a)"
    by (cases "ATTR_ROW_Resize ga w (m_attrRow r)")
  have caught: "ResultFromCaughtException x \<noteq> S_OK" for x
    by (cases x) simp_all
  from res ok have gc: "gc"
    by (cases gc) (auto simp: ROW_Resize_def CharRow_Resize_def FAILED_def)
  with res ok have ga: "ga"
    by (cases ga) (auto simp: ROW_Resize_def CharRow_Resize_def ATTR_ROW_Resize_def FAILED_def)
  from res gc ga c a have r': "r' = r\<lparr>m_charRow := c, m_attrRow := a, m_rowWidth := w\<rparr>"
    by (auto simp: ROW_Resize_def CharRow_Resize_def ATTR_ROW_Resize_def FAILED_def)
  show ?thesis
    using CharRow_size_Resize [of w "m_charRow r" hc c] ATTR_ROW_width_Resize [of w "m_attrRow r" ra a]
      c a gc ga
    by (simp add: r' width_invariant_def)
qed

lemma width_invariant_Reset:
  "ROW_Reset g attr r = (ok, r') \<Longrightarrow> width_invariant r \<Longrightarrow> width_invariant r'"
  by (cases g)
    (auto simp: ROW_Reset_def ATTR_ROW_Reset_def CharRow_Reset_def
      width_invariant_def CharRow_size_def ATTR_ROW_width_def)

lemma width_invariant_perform:
  "perform c r = (True, r') \<Longrightarrow> width_invariant r \<Longrightarrow> width_invariant r'"
proof (cases c)
  case (Call_Resize gc ga w)
  assume "perform c r = (True, r')"
  then show ?thesis
    using width_invariant_Resize [of gc ga w r _ r']
    by (auto simp: Call_Resize split: prod.splits)
next
  case (Call_Reset g a)
  assume "perform c r = (True, r')" "width_invariant r"
  then show ?thesis
    using width_invariant_Reset [of g a r True r'] by (simp add: Call_Reset)
qed

lemma width_invariant_perform_all:
  "width_invariant r \<Longrightarrow> k < length cs \<Longrightarrow> \<forall>j\<le>k. fst (perform_all r cs ! j)
     \<Longrightarrow> width_invariant (snd (perform_all r cs ! k))"
proof (induction cs arbitrary: r k)
  case Nil
  then show ?case by simp
next
  case (Cons c cs)
  obtain ok r' where p: "perform c r = (ok, r')"
    by (cases "perform c r")
  from Cons.prems(3) have "fst (perform_all r (c # cs) ! 0)"
    by blast
  then have ok: "ok" by (simp add: p)
  then have inv': "width_invariant r'"
    using width_invariant_perform [of c r r'] p Cons.prems(1) by simp
  show ?case
  proof (cases k)
    case 0
    then show ?thesis by (simp add: p inv')
  next
    case (Suc n)
    have "\<forall>j\<le>n. fst (perform_all r' cs ! j)"
    proof (intro allI impI)
      fix j assume "j \<le> n"
      then have "fst (perform_all r (c # cs) ! Suc j)"
        using Cons.prems(3) Suc by simp
      then show "fst (perform_all r' cs ! j)" by (simp add: p)
    qed
    moreover have "n < length cs" using Cons.prems(2) Suc by simp
    ultimately have "width_invariant (snd (perform_all r' cs ! n))"
      using Cons.IH [OF inv'] by blast
    then show ?thesis by (simp add: p Suc)
  qed
qed

lemma perform_all_nth:
  "k < length cs \<Longrightarrow> perform_all r cs ! k = perform (cs ! k) (row_before r cs k)"
proof (induction cs arbitrary: r k)
  case Nil
  then show ?case by simp
next
  case (Cons c cs)
  obtain ok r' where p: "perform c r = (ok, r')"
    by (cases "perform c r")
  show ?case
  proof (cases k)
    case 0
    then show ?thesis by (simp add: p row_before_def)
  next
    case (Suc n)
    then have n: "n < length cs" using Cons.prems by simp
    have "row_before r (c # cs) (Suc n) = row_before r' cs n"
      by (cases n) (simp_all add: row_before_def p)
    then show ?thesis
      using Cons.IH [OF n, of r'] by (simp add: Suc p)
  qed
qed

lemma width_invariant_step:
  assumes k: "k < length cs" and ok: "fst (perform_all r cs ! k)"
    and pre: "width_invariant (row_before r cs k) \<or> (\<exists>gc ga w. cs ! k = Call_Resize gc ga w)"
  shows "width_invariant (snd (perform_all r cs ! k))"
proof -
  obtain r' where p: "perform (cs ! k) (row_before r cs k) = (True, r')"
    using ok perform_all_nth [OF k, of r]
    by (cases "perform (cs ! k) (row_before r cs k)") simp
  have "width_invariant r'"
    using pre
  proof
    assume "width_invariant (row_before r cs k)"
    then show ?thesis using width_invariant_perform [OF p] by simp
  next
    assume "\<exists>gc ga w. cs ! k = Call_Resize gc ga w"
    then obtain gc ga w where c: "cs ! k = Call_Resize gc ga w" by blast
    then show ?thesis
      using p width_invariant_Resize [of gc ga w "row_before r cs k" _ r']
      by (auto split: prod.splits)
  qed
  then show ?thesis
    using perform_all_nth [OF k, of r] p by simp
qed

text \<open>
  C1, as amended. For every sequence of construction, \<open>Resize\<close> and \<open>Reset\<close> calls: the
  glyph storage's width, the attribute storage's width and the recorded width are equal
  after a construction that succeeds, and after each call that reports success when that
  call is a \<open>Resize\<close> or the three widths were equal before it; so they are equal after
  each call such that it and every call before it reported success.
\<close>

theorem width_invariant_after_success:
  "ROW_ctor rowId rowWidth fill p = Inr r0 \<Longrightarrow>
     width_invariant r0
     \<and> (\<forall>k < length cs.
           fst (perform_all r0 cs ! k)
           \<and> (width_invariant (row_before r0 cs k) \<or> (\<exists>gc ga w. cs ! k = Call_Resize gc ga w))
           \<longrightarrow> width_invariant (snd (perform_all r0 cs ! k)))
     \<and> (\<forall>k < length cs. (\<forall>j\<le>k. fst (perform_all r0 cs ! j))
           \<longrightarrow> width_invariant (snd (perform_all r0 cs ! k)))"
  using width_invariant_ctor [of rowId rowWidth fill p r0]
    width_invariant_perform_all [of r0 _ cs] width_invariant_step [of _ cs r0]
  by blast

theorem width_invariant_after_success_witness:
  "ROW_ctor 0 2 7 0 = Inr fresh_row
   \<and> fst (perform_all fresh_row [Call_Resize True True 3, Call_Reset True 9] ! 0)
   \<and> fst (perform_all fresh_row [Call_Resize True True 3, Call_Reset True 9] ! 1)
   \<and> width_invariant (snd (perform_all fresh_row [Call_Resize True True 3, Call_Reset True 9] ! 1))
   \<and> m_rowWidth (snd (perform_all fresh_row [Call_Resize True True 3, Call_Reset True 9] ! 1)) = 3
   \<and> \<not> fst (perform_all fresh_row [Call_Resize True False 3, Call_Resize True True 4] ! 0)
   \<and> fst (perform_all fresh_row [Call_Resize True False 3, Call_Resize True True 4] ! 1)
   \<and> width_invariant (snd (perform_all fresh_row [Call_Resize True False 3, Call_Resize True True 4] ! 1))
   \<and> m_rowWidth (snd (perform_all fresh_row [Call_Resize True False 3, Call_Resize True True 4] ! 1)) = 4"
proof -
  have c: "ROW_ctor 0 2 7 0 = Inr fresh_row"
    by code_simp
  have t: "perform_all fresh_row [Call_Resize True True 3, Call_Reset True 9]
      = [(True, \<lparr>m_id = 0, m_rowWidth = 3,
                  m_charRow = \<lparr>m_data = [default_cell, default_cell, default_cell]\<rparr>,
                  m_attrRow = \<lparr>m_list = [7, 7, 7]\<rparr>, m_pParent = 0\<rparr>),
         (True, \<lparr>m_id = 0, m_rowWidth = 3,
                  m_charRow = \<lparr>m_data = [default_cell, default_cell, default_cell]\<rparr>,
                  m_attrRow = \<lparr>m_list = [9, 9, 9]\<rparr>, m_pParent = 0\<rparr>)]"
    by (simp add: ROW_Resize_def ROW_Reset_def CharRow_Resize_def ATTR_ROW_Resize_def
        ATTR_ROW_Reset_def CharRow_Reset_def FAILED_def fresh_row_def)
  have u: "perform_all fresh_row [Call_Resize True False 3, Call_Resize True True 4]
      = [(False, \<lparr>m_id = 0, m_rowWidth = 2,
                  m_charRow = \<lparr>m_data = [default_cell, default_cell, default_cell]\<rparr>,
                  m_attrRow = \<lparr>m_list = [7, 7]\<rparr>, m_pParent = 0\<rparr>),
         (True, \<lparr>m_id = 0, m_rowWidth = 4,
                  m_charRow = \<lparr>m_data = [default_cell, default_cell, default_cell,
                                         default_cell]\<rparr>,
                  m_attrRow = \<lparr>m_list = [7, 7, 7, 7]\<rparr>, m_pParent = 0\<rparr>)]"
    by code_simp
  have all_ok: "\<forall>j\<le>1. fst (perform_all fresh_row [Call_Resize True True 3, Call_Reset True 9] ! j)"
    unfolding t by (simp add: le_Suc_eq)
  have "(1::nat) < length [Call_Resize True True 3, Call_Reset True 9]"
    by simp
  with all_ok have first: "width_invariant
      (snd (perform_all fresh_row [Call_Resize True True 3, Call_Reset True 9] ! 1))"
    using width_invariant_after_success [OF c, of "[Call_Resize True True 3, Call_Reset True 9]"]
    by blast
  have ok1: "fst (perform_all fresh_row [Call_Resize True False 3, Call_Resize True True 4] ! 1)"
    unfolding u by simp
  have "(1::nat) < length [Call_Resize True False 3, Call_Resize True True 4]"
    and "\<exists>gc ga w. [Call_Resize True False 3, Call_Resize True True 4] ! 1 = Call_Resize gc ga w"
    by auto
  with ok1 have second: "width_invariant
      (snd (perform_all fresh_row [Call_Resize True False 3, Call_Resize True True 4] ! 1))"
    using width_invariant_after_success [OF c, of "[Call_Resize True False 3, Call_Resize True True 4]"]
    by blast
  have "fst (perform_all fresh_row [Call_Resize True True 3, Call_Reset True 9] ! 0)"
    and "fst (perform_all fresh_row [Call_Resize True True 3, Call_Reset True 9] ! 1)"
    and "m_rowWidth (snd (perform_all fresh_row [Call_Resize True True 3, Call_Reset True 9] ! 1)) = 3"
    unfolding t by simp_all
  moreover have "\<not> fst (perform_all fresh_row [Call_Resize True False 3, Call_Resize True True 4] ! 0)"
    and "m_rowWidth (snd (perform_all fresh_row
           [Call_Resize True False 3, Call_Resize True True 4] ! 1)) = 4"
    unfolding u by simp_all
  ultimately show ?thesis
    using c first second ok1 by blast
qed

text \<open>
  C1 as stated fails: a \<open>Resize\<close> whose attribute step fails leaves the glyph storage
  resized, and a \<open>Reset\<close> after it reports success on a row whose widths differ.
\<close>

theorem width_invariant_counterexample:
  "ROW_ctor 0 2 7 0 = Inr fresh_row
   \<and> \<not> fst (perform_all fresh_row [Call_Resize True False 3, Call_Reset True 9] ! 0)
   \<and> fst (perform_all fresh_row [Call_Resize True False 3, Call_Reset True 9] ! 1)
   \<and> \<not> width_invariant (snd (perform_all fresh_row [Call_Resize True False 3, Call_Reset True 9] ! 1))
   \<and> CharRow_size (m_charRow (snd (perform_all fresh_row
         [Call_Resize True False 3, Call_Reset True 9] ! 1))) = 3
   \<and> ATTR_ROW_width (m_attrRow (snd (perform_all fresh_row
         [Call_Resize True False 3, Call_Reset True 9] ! 1))) = 2
   \<and> m_rowWidth (snd (perform_all fresh_row [Call_Resize True False 3, Call_Reset True 9] ! 1)) = 2"
proof -
  have c: "ROW_ctor 0 2 7 0 = Inr fresh_row"
    by code_simp
  have t: "perform_all fresh_row [Call_Resize True False 3, Call_Reset True 9]
      = [(False, \<lparr>m_id = 0, m_rowWidth = 2,
                  m_charRow = \<lparr>m_data = [default_cell, default_cell, default_cell]\<rparr>,
                  m_attrRow = \<lparr>m_list = [7, 7]\<rparr>, m_pParent = 0\<rparr>),
         (True, \<lparr>m_id = 0, m_rowWidth = 2,
                  m_charRow = \<lparr>m_data = [default_cell, default_cell, default_cell]\<rparr>,
                  m_attrRow = \<lparr>m_list = [9, 9]\<rparr>, m_pParent = 0\<rparr>)]"
    by (simp add: ROW_Resize_def ROW_Reset_def CharRow_Resize_def ATTR_ROW_Resize_def
        ATTR_ROW_Reset_def CharRow_Reset_def FAILED_def fresh_row_def)
  show ?thesis
    unfolding t by (simp add: c width_invariant_def CharRow_size_def ATTR_ROW_width_def)
qed

subsection \<open>Identity bookkeeping\<close>

text \<open>
  C10. \<open>SetId\<close> changes only the stored id: the width, the glyph storage, the attribute
  storage and the parent reference of the row are what they were, and \<open>GetId\<close> then
  returns the id that was set.
\<close>

theorem SetId_isolated:
  "ROW_GetId (ROW_SetId ident r) = ident
   \<and> m_rowWidth (ROW_SetId ident r) = m_rowWidth r
   \<and> m_charRow (ROW_SetId ident r) = m_charRow r
   \<and> m_attrRow (ROW_SetId ident r) = m_attrRow r
   \<and> m_pParent (ROW_SetId ident r) = m_pParent r"
  by (simp add: ROW_GetId_def ROW_SetId_def)

subsection \<open>Failure policy of Resize and Reset\<close>



text \<open>
  C3. \<open>Reset\<close> always applies the reset of the glyph storage. If the attribute reset then
  throws, \<open>Reset\<close> returns \<open>False\<close> (it does not throw), and the row has the cleared glyphs
  and the attribute storage it had before; if the attribute reset succeeds, \<open>Reset\<close>
  returns \<open>True\<close> with the attribute storage the reset gave. Nothing else of the row changes.
\<close>

theorem Reset_partial_success:
  "m_charRow (snd (ROW_Reset g attr r)) = CharRow_Reset (m_charRow r)
   \<and> (\<forall>c \<in> set (m_data (m_charRow (snd (ROW_Reset g attr r)))). c = default_cell)
   \<and> (fst (ATTR_ROW_Reset g attr (m_attrRow r)) \<noteq> Inr () \<longrightarrow>
        fst (ROW_Reset g attr r) = False
        \<and> m_attrRow (snd (ROW_Reset g attr r)) = m_attrRow r)
   \<and> (fst (ATTR_ROW_Reset g attr (m_attrRow r)) = Inr () \<longrightarrow>
        fst (ROW_Reset g attr r) = True
        \<and> m_attrRow (snd (ROW_Reset g attr r)) = snd (ATTR_ROW_Reset g attr (m_attrRow r)))
   \<and> m_rowWidth (snd (ROW_Reset g attr r)) = m_rowWidth r
   \<and> m_id (snd (ROW_Reset g attr r)) = m_id r
   \<and> m_pParent (snd (ROW_Reset g attr r)) = m_pParent r"
  by (cases g) (simp_all add: ROW_Reset_def ATTR_ROW_Reset_def CharRow_Reset_def)

theorem Reset_partial_success_witness:
  "fst (ROW_Reset False 7 sample_row) = False
   \<and> m_attrRow (snd (ROW_Reset False 7 sample_row)) = \<lparr>m_list = [1, 1, 2]\<rparr>
   \<and> m_data (m_charRow (snd (ROW_Reset False 7 sample_row)))
       = [default_cell, default_cell, default_cell]
   \<and> fst (ROW_Reset True 7 sample_row) = True
   \<and> m_attrRow (snd (ROW_Reset True 7 sample_row)) = \<lparr>m_list = [7, 7, 7]\<rparr>"
  using Reset_partial_success [of False 7 sample_row] Reset_partial_success [of True 7 sample_row]
  by (simp add: ROW_Reset_def ATTR_ROW_Reset_def CharRow_Reset_def sample_row_def)

subsection \<open>Facts about the cell accessors\<close>

lemma unat_succ: "(i::size_t) < count \<Longrightarrow> unat (i + 1) = unat i + 1"
proof -
  assume lt: "i < count"
  have "unat i < unat count" using lt by (simp add: word_less_nat_alt)
  moreover have "unat count < 2 ^ 64" using unsigned_less [of count] by simp
  ultimately show ?thesis by (simp add: unat_word_ariths)
qed

lemma unat_add_in_range:
  "unat (a::size_t) + unat b \<le> unat (w::size_t) \<Longrightarrow> unat (a + b) = unat a + unat b"
proof -
  assume h: "unat a + unat b \<le> unat w"
  have "unat w < 2 ^ 64" using unsigned_less [of w] by simp
  with h show ?thesis by (simp add: unat_word_ariths)
qed


lemma stored_width_invariant: "width_invariant r \<Longrightarrow> stored_width r = ROW_size r"
  by (simp add: width_invariant_def stored_width_def ROW_size_def)

lemma stored_width_less:
  "column < stored_width r \<Longrightarrow>
     \<not> CharRow_size (m_charRow r) \<le> column \<and> \<not> ATTR_ROW_width (m_attrRow r) \<le> column"
  by (simp add: stored_width_def not_le)

lemma stored_width_le:
  "stored_width r \<le> column \<Longrightarrow>
     CharRow_size (m_charRow r) \<le> column \<or> ATTR_ROW_width (m_attrRow r) \<le> column"
  by (simp add: stored_width_def min_le_iff_disj)

lemma ROW_at_in_range:
  assumes "column < stored_width r"
  shows "ROW_at column r = Inr (cell_at r (unat column))"
  using stored_width_less [OF assms]
  by (simp add: ROW_at_def CharRow_GlyphAt_def CharRow_DbcsAttrAt_def
      ATTR_ROW_GetAttrByColumn_def cell_at_def)


lemma AsCells_loop_done:
  "\<not> i < count \<Longrightarrow> AsCells_loop r startIndex count i it cells = Inr cells"
  by (subst AsCells_loop.simps) simp

lemma AsCells_loop_step:
  assumes "i < count" and "startIndex + i < stored_width r"
  shows "AsCells_loop r startIndex count i (startIndex + i) cells
    = AsCells_loop r startIndex count (i + 1) (startIndex + (i + 1))
        (cells @ [cell_at r (unat (startIndex + i))])"
  using assms(1) stored_width_less [OF assms(2)]
  by (subst AsCells_loop.simps)
    (simp add: Let_def CharRow_GlyphAt_def CharRow_DbcsAttrAt_def iterator_deref_def
      iterator_incr_def cell_at_def add.assoc)

lemma AsCells_loop_raise:
  assumes "i < count" and "stored_width r \<le> startIndex + i"
  shows "AsCells_loop r startIndex count i (startIndex + i) cells = Inl invalid_argument"
  using assms(1) stored_width_le [OF assms(2)]
  by (subst AsCells_loop.simps)
    (auto simp: Let_def CharRow_GlyphAt_def CharRow_DbcsAttrAt_def iterator_deref_def)

lemma AsCells_loop_in_range:
  assumes fit: "unat startIndex + unat count \<le> unat (stored_width r)"
  shows "i \<le> count \<Longrightarrow>
    AsCells_loop r startIndex count i (startIndex + i) cells
      = Inr (cells @ map (cell_at r) [unat startIndex + unat i ..< unat startIndex + unat count])"
proof (induction "unat count - unat i" arbitrary: i cells)
  case 0
  then have "unat i = unat count"
    by (simp add: word_le_nat_alt)
  then have "i = count"
    by (simp add: word_unat_eq_iff)
  then show ?case
    by (simp add: AsCells_loop_done)
next
  case (Suc n)
  then have ult: "unat i < unat count"
    by simp
  then have lt: "i < count"
    by (simp add: word_less_nat_alt)
  have idx: "unat (startIndex + i) = unat startIndex + unat i"
    using fit ult by (intro unat_add_in_range [of _ _ "stored_width r"]) simp
  have in_range: "startIndex + i < stored_width r"
    using idx ult fit by (simp add: word_less_nat_alt)
  have usucc: "unat (i + 1) = unat i + 1"
    using unat_succ [OF lt] .
  have n: "n = unat count - unat (i + 1)"
    using Suc.hyps(2) usucc by simp
  have next_le: "i + 1 \<le> count"
    using ult usucc by (simp add: word_le_nat_alt)
  have "[unat startIndex + unat i ..< unat startIndex + unat count]
      = (unat startIndex + unat i) # [unat startIndex + unat (i + 1) ..< unat startIndex + unat count]"
    using ult by (simp add: usucc upt_conv_Cons)
  then show ?case
    using Suc.hyps(1) [OF n next_le, of "cells @ [cell_at r (unat (startIndex + i))]"]
    by (simp add: AsCells_loop_step [OF lt in_range] idx)
qed

lemma AsCells_loop_out_of_range:
  assumes out: "unat (stored_width r) < unat startIndex + unat count"
  shows "i < count \<Longrightarrow> unat startIndex + unat i \<le> unat (stored_width r) \<Longrightarrow>
    AsCells_loop r startIndex count i (startIndex + i) cells = Inl invalid_argument"
proof (induction "unat count - unat i" arbitrary: i cells)
  case 0
  then show ?case
    by (simp add: word_less_nat_alt)
next
  case (Suc n)
  have lt: "i < count" by fact
  have idx: "unat (startIndex + i) = unat startIndex + unat i"
    using Suc.prems(2) by (rule unat_add_in_range)
  show ?case
  proof (cases "stored_width r \<le> startIndex + i")
    case True
    then show ?thesis
      using AsCells_loop_raise [OF lt] by simp
  next
    case False
    then have in_range: "startIndex + i < stored_width r"
      by simp
    then have ult: "unat startIndex + unat i < unat (stored_width r)"
      using idx by (simp add: word_less_nat_alt)
    have usucc: "unat (i + 1) = unat i + 1"
      using unat_succ [OF lt] .
    have n: "n = unat count - unat (i + 1)"
      using Suc.hyps(2) usucc by simp
    have "unat (i + 1) < unat count"
      using ult out usucc by simp
    then have next_lt: "i + 1 < count"
      by (simp add: word_less_nat_alt)
    have next_sum: "unat startIndex + unat (i + 1) \<le> unat (stored_width r)"
      using ult usucc by simp
    show ?thesis
      using Suc.hyps(1) [OF n next_lt next_sum, of "cells @ [cell_at r (unat (startIndex + i))]"]
      by (simp add: AsCells_loop_step [OF lt in_range])
  qed
qed

lemma ROW_AsCells2_char:
  "ROW_AsCells2 ms g startIndex count r =
     (if ms < count then Inl length_error
      else if count = 0 then Inr []
      else if \<not> g then Inl bad_alloc
      else if unat startIndex + unat count \<le> unat (stored_width r)
      then Inr (map (cell_at r) [unat startIndex ..< unat startIndex + unat count])
      else Inl invalid_argument)"
proof -
  have loop: "ROW_AsCells2 ms g startIndex count r
      = AsCells_loop r startIndex count 0 (startIndex + 0) []"
    if "\<not> ms < count" and "count = 0 \<or> g"
    using that
    by (auto simp: ROW_AsCells2_def vector_reserve_def std_next_def ATTR_ROW_begin_def)
  show ?thesis
  proof (cases "ms < count")
    case True
    then show ?thesis
      by (simp add: ROW_AsCells2_def vector_reserve_def)
  next
    case small: False
    show ?thesis
    proof (cases "count = 0")
      case True
      then show ?thesis
        using loop [OF small] by (simp add: AsCells_loop_done)
    next
      case pos: False
      then have pos': "0 < count"
        by (simp add: word_greater_zero_iff)
      show ?thesis
      proof (cases g)
        case False
        then show ?thesis
          using small pos by (simp add: ROW_AsCells2_def vector_reserve_def)
      next
        case True
        show ?thesis
        proof (cases "unat startIndex + unat count \<le> unat (stored_width r)")
          case fit: True
          show ?thesis
            using AsCells_loop_in_range [OF fit, of 0 "[]"] loop [OF small] True small pos fit
            by simp
        next
          case out: False
          then have out': "unat (stored_width r) < unat startIndex + unat count"
            by simp
          have "AsCells_loop r startIndex count 0 (startIndex + 0) [] = Inl invalid_argument"
          proof (cases "stored_width r \<le> startIndex")
            case True
            then show ?thesis
              using AsCells_loop_raise [OF pos', of r startIndex "[]"] by simp
          next
            case False
            then have "unat startIndex + unat (0::size_t) \<le> unat (stored_width r)"
              by (simp add: word_le_nat_alt)
            then show ?thesis
              using AsCells_loop_out_of_range [OF out' pos'] by blast
          qed
          then show ?thesis
            using loop [OF small] True small pos out by simp
        qed
      qed
    qed
  qed
qed

lemma ROW_AsCells2_agrees:
  assumes res: "ROW_AsCells2 ms g startIndex count r = Inr cells"
  shows "length cells = unat count
    \<and> (\<forall>i < count. ROW_at (startIndex + i) r = Inr (cells ! unat i))"
proof (cases "count = 0")
  case True
  then show ?thesis
    using res by (auto simp: ROW_AsCells2_char split: if_splits)
next
  case False
  then have fit: "unat startIndex + unat count \<le> unat (stored_width r)"
    and cells: "cells = map (cell_at r) [unat startIndex ..< unat startIndex + unat count]"
    using res by (auto simp: ROW_AsCells2_char split: if_splits)
  have "ROW_at (startIndex + i) r = Inr (cells ! unat i)" if lt: "i < count" for i
  proof -
    have ilt: "unat i < unat count"
      using lt by (simp add: word_less_nat_alt)
    then have "unat startIndex + unat i \<le> unat (stored_width r)"
      using fit by simp
    then have idx: "unat (startIndex + i) = unat startIndex + unat i"
      by (rule unat_add_in_range)
    then have "startIndex + i < stored_width r"
      using ilt fit by (simp add: word_less_nat_alt)
    then have "ROW_at (startIndex + i) r = Inr (cell_at r (unat startIndex + unat i))"
      using ROW_at_in_range idx by simp
    then show ?thesis
      using ilt by (simp add: cells)
  qed
  then show ?thesis
    by (simp add: cells)
qed

lemma ROW_AsCells2_returns:
  assumes "unat startIndex + unat count \<le> unat (stored_width r)" and "count \<le> ms"
    and "count = 0 \<or> g"
  shows "\<exists>cells. ROW_AsCells2 ms g startIndex count r = Inr cells"
  using assms by (auto simp: ROW_AsCells2_char)

text \<open>
  Construction, \<open>Resize\<close> and \<open>Reset\<close> keep the attribute storage as wide as the recorded
  width, whatever they report; so both storages never hold more columns than the
  recorded width on a row these calls produce.
\<close>

lemma attr_width_perform:
  assumes "ATTR_ROW_width (m_attrRow r) = m_rowWidth r" and "perform c r = (ok, r')"
  shows "ATTR_ROW_width (m_attrRow r') = m_rowWidth r'"
proof (cases c)
  case (Call_Resize gc ga w)
  show ?thesis
  proof (cases "gc \<and> ga")
    case True
    then have "width_invariant r'"
      using assms(2) width_invariant_Resize [of gc ga w r S_OK r']
      by (auto simp: Call_Resize ROW_Resize_def CharRow_Resize_def ATTR_ROW_Resize_def
          FAILED_def Let_def)
    then show ?thesis
      by (simp add: width_invariant_def)
  next
    case False
    then show ?thesis
      using assms
      by (cases gc)
        (auto simp: Call_Resize ROW_Resize_def CharRow_Resize_def ATTR_ROW_Resize_def
          FAILED_def Let_def)
  qed
next
  case (Call_Reset g a)
  then show ?thesis
    using assms
    by (cases g) (auto simp: ROW_Reset_def ATTR_ROW_Reset_def ATTR_ROW_width_def Let_def)
qed

lemma attr_width_after_calls:
  assumes ctor: "ROW_ctor rowId rowWidth fill p = Inr r0"
  shows "k < length cs \<Longrightarrow>
    ATTR_ROW_width (m_attrRow (snd (perform_all r0 cs ! k)))
      = m_rowWidth (snd (perform_all r0 cs ! k))"
proof (induction k)
  case 0
  have "ATTR_ROW_width (m_attrRow r0) = m_rowWidth r0"
    using width_invariant_ctor [OF ctor] by (simp add: width_invariant_def)
  then show ?case
    using attr_width_perform [of r0 "cs ! 0"] perform_all_nth [OF 0, of r0]
    by (cases "perform (cs ! 0) r0") (simp add: row_before_def)
next
  case (Suc k)
  then have "ATTR_ROW_width (m_attrRow (row_before r0 cs (Suc k)))
      = m_rowWidth (row_before r0 cs (Suc k))"
    by (simp add: row_before_def)
  then show ?case
    using attr_width_perform [of "row_before r0 cs (Suc k)" "cs ! Suc k"]
      perform_all_nth [OF Suc.prems, of r0]
    by (cases "perform (cs ! Suc k) (row_before r0 cs (Suc k))") simp
qed

lemma stored_width_le_after_calls:
  assumes "ROW_ctor rowId rowWidth fill p = Inr r0" and "k < length cs"
  shows "stored_width (snd (perform_all r0 cs ! k)) \<le> ROW_size (snd (perform_all r0 cs ! k))"
  using attr_width_after_calls [OF assms] by (simp add: stored_width_def ROW_size_def)

subsection \<open>Cell accessors\<close>

text \<open>
  C5, as amended. For every row: whenever \<open>AsCells(startColumn, count)\<close> returns a
  sequence, it has exactly \<open>count\<close> cells and its \<open>i\<close>-th cell is the cell
  \<open>at(startColumn + i)\<close> returns, for every \<open>i < count\<close>. It returns a sequence whenever
  \<open>startColumn + count\<close> is within the columns both storages hold, \<open>count\<close> is at most
  \<open>max_size()\<close> and \<open>reserve\<close> gets its memory; so it does for every
  \<open>startColumn + count \<le> width\<close> on a row whose three widths agree.
\<close>

theorem AsCells_agrees_with_at:
  "(\<forall>cells. ROW_AsCells2 ms g startColumn count r = Inr cells \<longrightarrow>
      length cells = unat count
      \<and> (\<forall>i < count. ROW_at (startColumn + i) r = Inr (cells ! unat i)))
   \<and> (unat startColumn + unat count \<le> unat (stored_width r) \<and> count \<le> ms \<and> (count = 0 \<or> g)
        \<longrightarrow> (\<exists>cells. ROW_AsCells2 ms g startColumn count r = Inr cells))
   \<and> (width_invariant r \<and> unat startColumn + unat count \<le> unat (ROW_size r)
        \<and> count \<le> ms \<and> (count = 0 \<or> g)
        \<longrightarrow> (\<exists>cells. ROW_AsCells2 ms g startColumn count r = Inr cells
              \<and> length cells = unat count
              \<and> (\<forall>i < count. ROW_at (startColumn + i) r = Inr (cells ! unat i))))"
proof -
  have agree: "\<forall>cells. ROW_AsCells2 ms g startColumn count r = Inr cells \<longrightarrow>
      length cells = unat count
      \<and> (\<forall>i < count. ROW_at (startColumn + i) r = Inr (cells ! unat i))"
    using ROW_AsCells2_agrees by blast
  have returns: "unat startColumn + unat count \<le> unat (stored_width r) \<and> count \<le> ms
        \<and> (count = 0 \<or> g)
        \<longrightarrow> (\<exists>cells. ROW_AsCells2 ms g startColumn count r = Inr cells)"
    using ROW_AsCells2_returns by blast
  have "width_invariant r \<and> unat startColumn + unat count \<le> unat (ROW_size r)
        \<and> count \<le> ms \<and> (count = 0 \<or> g)
        \<longrightarrow> (\<exists>cells. ROW_AsCells2 ms g startColumn count r = Inr cells
              \<and> length cells = unat count
              \<and> (\<forall>i < count. ROW_at (startColumn + i) r = Inr (cells ! unat i)))"
    using agree returns stored_width_invariant [of r] by auto
  with agree returns show ?thesis
    by (intro conjI)
qed

theorem AsCells_agrees_with_at_witness:
  "width_invariant sample_row
   \<and> unat (1::size_t) + unat (2::size_t) \<le> unat (ROW_size sample_row)
   \<and> (2::size_t) \<le> sample_max_size
   \<and> ROW_AsCells2 sample_max_size True 1 2 sample_row
       = Inr [\<lparr>glyph_of = [0x4E2D], dbcs_of = Leading, attr_of = 1\<rparr>,
              \<lparr>glyph_of = [0x4E2D], dbcs_of = Trailing, attr_of = 2\<rparr>]
   \<and> ROW_at 1 sample_row = Inr \<lparr>glyph_of = [0x4E2D], dbcs_of = Leading, attr_of = 1\<rparr>
   \<and> ROW_at 2 sample_row = Inr \<lparr>glyph_of = [0x4E2D], dbcs_of = Trailing, attr_of = 2\<rparr>"
proof -
  have inv: "width_invariant sample_row"
    by (simp add: width_invariant_def CharRow_size_def ATTR_ROW_width_def sample_row_def)
  have fit: "unat (1::size_t) + unat (2::size_t) \<le> unat (ROW_size sample_row)"
    by (simp add: ROW_size_def sample_row_def)
  have small: "(2::size_t) \<le> sample_max_size"
    by (simp add: sample_max_size_def)
  have at1: "ROW_at 1 sample_row = Inr \<lparr>glyph_of = [0x4E2D], dbcs_of = Leading, attr_of = 1\<rparr>"
    by (simp add: ROW_at_def CharRow_GlyphAt_def CharRow_DbcsAttrAt_def
        ATTR_ROW_GetAttrByColumn_def CharRow_size_def ATTR_ROW_width_def sample_row_def
        word_le_nat_alt)
  have at2: "ROW_at 2 sample_row = Inr \<lparr>glyph_of = [0x4E2D], dbcs_of = Trailing, attr_of = 2\<rparr>"
    by (simp add: ROW_at_def CharRow_GlyphAt_def CharRow_DbcsAttrAt_def
        ATTR_ROW_GetAttrByColumn_def CharRow_size_def ATTR_ROW_width_def sample_row_def
        word_le_nat_alt)
  obtain cells where res: "ROW_AsCells2 sample_max_size True 1 2 sample_row = Inr cells"
    and len: "length cells = unat (2::size_t)"
    and each: "\<forall>i < 2. ROW_at (1 + i) sample_row = Inr (cells ! unat i)"
    using AsCells_agrees_with_at [of sample_max_size True 1 2 sample_row] inv fit small
    by blast
  have "(0::size_t) < 2" and "(1::size_t) < 2"
    by (simp_all add: word_less_nat_alt)
  with each have "ROW_at (1 + 0) sample_row = Inr (cells ! unat (0::size_t))"
    and "ROW_at (1 + 1) sample_row = Inr (cells ! unat (1::size_t))"
    by blast+
  then have "cells ! 0 = \<lparr>glyph_of = [0x4E2D], dbcs_of = Leading, attr_of = 1\<rparr>"
    and "cells ! 1 = \<lparr>glyph_of = [0x4E2D], dbcs_of = Trailing, attr_of = 2\<rparr>"
    using at1 at2 by simp_all
  with len have "cells = [\<lparr>glyph_of = [0x4E2D], dbcs_of = Leading, attr_of = 1\<rparr>,
              \<lparr>glyph_of = [0x4E2D], dbcs_of = Trailing, attr_of = 2\<rparr>]"
    by (cases cells; cases "tl cells") auto
  with res inv fit small at1 at2 show ?thesis
    by simp
qed

text \<open>
  C5 as stated fails on a row whose glyph storage is narrower than the recorded width:
  the request is in range by the recorded width, \<open>at\<close> returns a cell for column 0, and
  \<open>AsCells\<close> raises.
\<close>

theorem AsCells_agrees_with_at_counterexample:
  "ROW_ctor 0 3 7 0 = Inr fresh_row3
   \<and> perform_all fresh_row3 [Call_Resize True False 2, Call_Reset True 9] ! 1 = (True, shrunk_row)
   \<and> unat (0::size_t) + unat (3::size_t) \<le> unat (ROW_size shrunk_row)
   \<and> ROW_AsCells2 sample_max_size True 0 3 shrunk_row = Inl invalid_argument
   \<and> ROW_at 0 shrunk_row = Inr \<lparr>glyph_of = empty_glyph, dbcs_of = Single, attr_of = 9\<rparr>"
  by code_simp




text \<open>
  C8, as amended. For every row of recorded width \<open>W\<close>: \<open>AsCells()\<close> is \<open>AsCells(0, W)\<close>,
  and \<open>AsCells(startColumn)\<close> is \<open>AsCells(startColumn, W - startColumn)\<close> for
  \<open>startColumn \<le> W\<close>; whenever they return a sequence, it is the cells of the columns
  from \<open>0\<close>, respectively from \<open>startColumn\<close>, to the end of the row, as \<open>at\<close> returns
  them. They return one when both storages hold at least \<open>W\<close> columns (so on every row
  whose three widths agree), the count is at most \<open>max_size()\<close> and \<open>reserve\<close> gets its
  memory.
\<close>

theorem AsCells_default_overloads:
  "ROW_AsCells0 ms g r = ROW_AsCells2 ms g 0 (ROW_size r) r
   \<and> (\<forall>cells. ROW_AsCells0 ms g r = Inr cells \<longrightarrow>
         length cells = unat (ROW_size r)
         \<and> (\<forall>i < ROW_size r. ROW_at i r = Inr (cells ! unat i)))
   \<and> (ROW_size r \<le> stored_width r \<and> ROW_size r \<le> ms \<and> (ROW_size r = 0 \<or> g) \<longrightarrow>
         (\<exists>cells. ROW_AsCells0 ms g r = Inr cells))
   \<and> (\<forall>startColumn \<le> ROW_size r.
         ROW_AsCells1 ms g startColumn r
           = ROW_AsCells2 ms g startColumn (ROW_size r - startColumn) r
         \<and> (\<forall>cells. ROW_AsCells1 ms g startColumn r = Inr cells \<longrightarrow>
               length cells = unat (ROW_size r) - unat startColumn
               \<and> (\<forall>i < ROW_size r - startColumn.
                     ROW_at (startColumn + i) r = Inr (cells ! unat i)))
         \<and> (ROW_size r \<le> stored_width r \<and> ROW_size r - startColumn \<le> ms
              \<and> (startColumn = ROW_size r \<or> g) \<longrightarrow>
               (\<exists>cells. ROW_AsCells1 ms g startColumn r = Inr cells)))
   \<and> (width_invariant r \<longrightarrow> ROW_size r \<le> stored_width r)"
proof -
  have zero: "ROW_AsCells0 ms g r = ROW_AsCells2 ms g 0 (ROW_size r) r"
    by (simp add: ROW_AsCells0_def)
  have zero_agree: "\<forall>cells. ROW_AsCells0 ms g r = Inr cells \<longrightarrow>
         length cells = unat (ROW_size r)
         \<and> (\<forall>i < ROW_size r. ROW_at i r = Inr (cells ! unat i))"
    using ROW_AsCells2_agrees [of ms g 0 "ROW_size r" r] by (simp add: zero)
  have zero_returns: "ROW_size r \<le> stored_width r \<and> ROW_size r \<le> ms \<and> (ROW_size r = 0 \<or> g)
      \<longrightarrow> (\<exists>cells. ROW_AsCells0 ms g r = Inr cells)"
    using ROW_AsCells2_returns [of 0 "ROW_size r" r ms g]
    by (simp add: zero word_le_nat_alt)
  have one: "ROW_AsCells1 ms g startColumn r
           = ROW_AsCells2 ms g startColumn (ROW_size r - startColumn) r
         \<and> (\<forall>cells. ROW_AsCells1 ms g startColumn r = Inr cells \<longrightarrow>
               length cells = unat (ROW_size r) - unat startColumn
               \<and> (\<forall>i < ROW_size r - startColumn.
                     ROW_at (startColumn + i) r = Inr (cells ! unat i)))
         \<and> (ROW_size r \<le> stored_width r \<and> ROW_size r - startColumn \<le> ms
              \<and> (startColumn = ROW_size r \<or> g) \<longrightarrow>
               (\<exists>cells. ROW_AsCells1 ms g startColumn r = Inr cells))"
    if le: "startColumn \<le> ROW_size r" for startColumn
  proof -
    have eq: "ROW_AsCells1 ms g startColumn r
           = ROW_AsCells2 ms g startColumn (ROW_size r - startColumn) r"
      by (simp add: ROW_AsCells1_def)
    have count: "unat (ROW_size r - startColumn) = unat (ROW_size r) - unat startColumn"
      using le by (rule unat_sub)
    have ule: "unat startColumn \<le> unat (ROW_size r)"
      using le by (simp add: word_le_nat_alt)
    have agree: "\<forall>cells. ROW_AsCells1 ms g startColumn r = Inr cells \<longrightarrow>
               length cells = unat (ROW_size r) - unat startColumn
               \<and> (\<forall>i < ROW_size r - startColumn.
                     ROW_at (startColumn + i) r = Inr (cells ! unat i))"
      using ROW_AsCells2_agrees [of ms g startColumn "ROW_size r - startColumn" r]
      by (simp add: eq count)
    have "\<exists>cells. ROW_AsCells1 ms g startColumn r = Inr cells"
      if "ROW_size r \<le> stored_width r" and "ROW_size r - startColumn \<le> ms"
        and "startColumn = ROW_size r \<or> g"
    proof -
      have "unat startColumn + unat (ROW_size r - startColumn) \<le> unat (stored_width r)"
        using that(1) ule count by (simp add: word_le_nat_alt)
      moreover have "ROW_size r - startColumn = 0 \<or> g"
        using that(3) by auto
      ultimately show ?thesis
        using ROW_AsCells2_returns [of startColumn "ROW_size r - startColumn" r ms g] that(2)
        by (simp add: eq)
    qed
    with eq agree show ?thesis
      by blast
  qed
  have "width_invariant r \<longrightarrow> ROW_size r \<le> stored_width r"
    by (simp add: stored_width_invariant)
  with zero zero_agree zero_returns one show ?thesis
    by blast
qed

theorem AsCells_default_overloads_witness:
  "width_invariant sample_row
   \<and> ROW_size sample_row \<le> stored_width sample_row
   \<and> ROW_size sample_row \<le> sample_max_size
   \<and> ROW_AsCells0 sample_max_size True sample_row = ROW_AsCells2 sample_max_size True 0 3 sample_row
   \<and> (\<exists>cells. ROW_AsCells0 sample_max_size True sample_row = Inr cells \<and> length cells = 3
         \<and> ROW_at 0 sample_row = Inr (cells ! 0) \<and> ROW_at 2 sample_row = Inr (cells ! 2))
   \<and> 1 \<le> ROW_size sample_row
   \<and> ROW_AsCells1 sample_max_size True 1 sample_row = ROW_AsCells2 sample_max_size True 1 2 sample_row
   \<and> (\<exists>cells. ROW_AsCells1 sample_max_size True 1 sample_row = Inr cells \<and> length cells = 2
         \<and> ROW_at 1 sample_row = Inr (cells ! 0) \<and> ROW_at 2 sample_row = Inr (cells ! 1))"
proof -
  have inv: "width_invariant sample_row"
    by (simp add: width_invariant_def CharRow_size_def ATTR_ROW_width_def sample_row_def)
  have sz: "ROW_size sample_row = 3"
    by (simp add: ROW_size_def sample_row_def)
  have st: "ROW_size sample_row \<le> stored_width sample_row"
    by (simp add: stored_width_def CharRow_size_def ATTR_ROW_width_def ROW_size_def
        sample_row_def)
  have small: "ROW_size sample_row \<le> sample_max_size" "ROW_size sample_row - 1 \<le> sample_max_size"
    by (simp_all add: sz sample_max_size_def)
  have le: "(1::size_t) \<le> ROW_size sample_row"
    by (simp add: sz word_le_nat_alt)
  note inst = AsCells_default_overloads [of sample_max_size True sample_row]
  from inst have zero: "ROW_AsCells0 sample_max_size True sample_row
      = ROW_AsCells2 sample_max_size True 0 (ROW_size sample_row) sample_row"
    by blast
  from inst st small obtain cells0 where c0: "ROW_AsCells0 sample_max_size True sample_row = Inr cells0"
    by blast
  with inst have len0: "length cells0 = unat (ROW_size sample_row)"
    and each0: "\<forall>i < ROW_size sample_row. ROW_at i sample_row = Inr (cells0 ! unat i)"
    by blast+
  have "(0::size_t) < ROW_size sample_row" and "(2::size_t) < ROW_size sample_row"
    by (simp_all add: sz)
  with each0 have "ROW_at 0 sample_row = Inr (cells0 ! unat (0::size_t))"
    and "ROW_at 2 sample_row = Inr (cells0 ! unat (2::size_t))"
    by blast+
  with c0 len0 have part0: "\<exists>cells. ROW_AsCells0 sample_max_size True sample_row = Inr cells
      \<and> length cells = 3 \<and> ROW_at 0 sample_row = Inr (cells ! 0)
      \<and> ROW_at 2 sample_row = Inr (cells ! 2)"
    by (simp add: sz)
  from inst le have one: "ROW_AsCells1 sample_max_size True 1 sample_row
      = ROW_AsCells2 sample_max_size True 1 (ROW_size sample_row - 1) sample_row"
    by blast
  from inst le st small obtain cells1 where c1: "ROW_AsCells1 sample_max_size True 1 sample_row = Inr cells1"
    by blast
  with inst le have len1: "length cells1 = unat (ROW_size sample_row) - unat (1::size_t)"
    and each1: "\<forall>i < ROW_size sample_row - 1. ROW_at (1 + i) sample_row = Inr (cells1 ! unat i)"
    by blast+
  have "(0::size_t) < ROW_size sample_row - 1" and "(1::size_t) < ROW_size sample_row - 1"
    by (simp_all add: sz word_less_nat_alt)
  with each1 have "ROW_at (1 + 0) sample_row = Inr (cells1 ! unat (0::size_t))"
    and "ROW_at (1 + 1) sample_row = Inr (cells1 ! unat (1::size_t))"
    by blast+
  with c1 len1 have part1: "\<exists>cells. ROW_AsCells1 sample_max_size True 1 sample_row = Inr cells
      \<and> length cells = 2 \<and> ROW_at 1 sample_row = Inr (cells ! 0)
      \<and> ROW_at 2 sample_row = Inr (cells ! 1)"
    by (simp add: sz)
  from inv st small(1) zero part0 le one part1 show ?thesis
    by (simp add: sz)
qed

text \<open>
  C8 as stated fails on a row whose glyph storage is narrower than the recorded width:
  both overloads raise.
\<close>

theorem AsCells_default_overloads_counterexample:
  "ROW_ctor 0 3 7 0 = Inr fresh_row3
   \<and> perform_all fresh_row3 [Call_Resize True False 2, Call_Reset True 9] ! 1 = (True, shrunk_row)
   \<and> ROW_size shrunk_row = 3
   \<and> ROW_AsCells0 sample_max_size True shrunk_row = Inl invalid_argument
   \<and> ROW_AsCells2 sample_max_size True 0 3 shrunk_row = Inl invalid_argument
   \<and> 1 \<le> ROW_size shrunk_row
   \<and> ROW_AsCells1 sample_max_size True 1 shrunk_row = Inl invalid_argument"
  by code_simp

text \<open>
  C9. \<open>AsCells(startIndex)\<close> passes \<open>size() - startIndex\<close>, computed modulo \<open>2 ^ 64\<close>, to
  the two-argument overload for every \<open>startIndex\<close>, with no check of its own. When
  \<open>startIndex\<close> exceeds the width \<open>W\<close>, the count is \<open>2 ^ 64 - (startIndex - W)\<close>, which is
  more than \<open>W\<close>. A count above \<open>max_size()\<close> then ends the call in \<open>std::length_error\<close>,
  not in the invalid-argument exception.
\<close>

theorem AsCells1_unsigned_wrap:
  "ROW_AsCells1 ms g startIndex r = ROW_AsCells2 ms g startIndex (ROW_size r - startIndex) r
   \<and> unat (ROW_size r - startIndex)
       = (if unat startIndex \<le> unat (ROW_size r) then unat (ROW_size r) - unat startIndex
          else unat (ROW_size r) + 2 ^ 64 - unat startIndex)
   \<and> (ROW_size r < startIndex \<longrightarrow>
        unat (ROW_size r - startIndex) = 2 ^ 64 - (unat startIndex - unat (ROW_size r))
        \<and> ROW_size r < ROW_size r - startIndex)
   \<and> (ms < ROW_size r - startIndex \<longrightarrow> ROW_AsCells1 ms g startIndex r = Inl length_error)"
proof (intro conjI impI)
  show "ROW_AsCells1 ms g startIndex r = ROW_AsCells2 ms g startIndex (ROW_size r - startIndex) r"
    by (simp add: ROW_AsCells1_def)
  show "ROW_AsCells1 ms g startIndex r = Inl length_error" if "ms < ROW_size r - startIndex"
    using that by (simp add: ROW_AsCells1_def ROW_AsCells2_def vector_reserve_def)
  show eq: "unat (ROW_size r - startIndex)
       = (if unat startIndex \<le> unat (ROW_size r) then unat (ROW_size r) - unat startIndex
          else unat (ROW_size r) + 2 ^ 64 - unat startIndex)"
    using unat_sub_if_size [of "ROW_size r" startIndex] by (simp add: word_size)
  assume lt: "ROW_size r < startIndex"
  then have ult: "unat (ROW_size r) < unat startIndex"
    by (simp add: word_less_nat_alt)
  have bound: "unat startIndex < 2 ^ 64"
    using unsigned_less [of startIndex] by simp
  show wrapped: "unat (ROW_size r - startIndex) = 2 ^ 64 - (unat startIndex - unat (ROW_size r))"
    using eq ult bound by simp
  show "ROW_size r < ROW_size r - startIndex"
    using wrapped ult bound by (simp add: word_less_nat_alt)
qed

theorem AsCells1_unsigned_wrap_witness:
  "ROW_size sample_row < 5
   \<and> ROW_AsCells1 sample_max_size True 5 sample_row
       = ROW_AsCells2 sample_max_size True 5 (- 2) sample_row
   \<and> unat (ROW_size sample_row - 5) = 18446744073709551614
   \<and> sample_max_size < ROW_size sample_row - 5
   \<and> ROW_AsCells1 sample_max_size True 5 sample_row = Inl length_error"
proof -
  have sz: "ROW_size sample_row = 3"
    by (simp add: ROW_size_def sample_row_def)
  have big: "sample_max_size < ROW_size sample_row - 5"
    by (simp add: sz sample_max_size_def)
  have lt: "ROW_size sample_row < 5"
    by (simp add: sz)
  have count: "ROW_size sample_row - 5 = - 2"
    by (simp add: sz)
  from AsCells1_unsigned_wrap [of sample_max_size True 5 sample_row] lt big
  have "ROW_AsCells1 sample_max_size True 5 sample_row
      = ROW_AsCells2 sample_max_size True 5 (ROW_size sample_row - 5) sample_row"
    and "unat (ROW_size sample_row - 5) = 2 ^ 64 - (unat (5::size_t) - unat (ROW_size sample_row))"
    and "ROW_AsCells1 sample_max_size True 5 sample_row = Inl length_error"
    by blast+
  then show ?thesis
    using lt big by (simp add: count)
qed

subsection \<open>ClearColumn\<close>

text \<open>
  C7, as amended. For every row: \<open>ClearColumn(column)\<close> raises the invalid-argument
  exception exactly when \<open>column\<close> is at least the size of the glyph storage, and the row
  is then unchanged; otherwise it returns normally. On a row whose glyph storage has the
  recorded width \<open>W\<close> (so on every row whose three widths agree) it raises exactly when
  \<open>column \<ge> W\<close>.
\<close>

theorem ClearColumn_bounds_check:
  "(CharRow_size (m_charRow r) \<le> column \<longrightarrow>
      ROW_ClearColumn column r = (Inl invalid_argument, r))
   \<and> (column < CharRow_size (m_charRow r) \<longrightarrow> fst (ROW_ClearColumn column r) = Inr ())
   \<and> (CharRow_size (m_charRow r) = ROW_size r \<longrightarrow>
        (ROW_size r \<le> column \<longrightarrow> ROW_ClearColumn column r = (Inl invalid_argument, r))
        \<and> (column < ROW_size r \<longrightarrow> fst (ROW_ClearColumn column r) = Inr ()))
   \<and> (width_invariant r \<longrightarrow> CharRow_size (m_charRow r) = ROW_size r)"
  by (auto simp: ROW_ClearColumn_def CharRow_ClearCell_def ROW_size_def width_invariant_def)

theorem ClearColumn_bounds_check_witness:
  "CharRow_size (m_charRow sample_row) = ROW_size sample_row
   \<and> ROW_size sample_row \<le> 3
   \<and> ROW_ClearColumn 3 sample_row = (Inl invalid_argument, sample_row)
   \<and> 2 < ROW_size sample_row
   \<and> fst (ROW_ClearColumn 2 sample_row) = Inr ()"
proof -
  have eq: "CharRow_size (m_charRow sample_row) = ROW_size sample_row"
    by (simp add: CharRow_size_def ROW_size_def sample_row_def)
  have sz: "ROW_size sample_row = 3"
    by (simp add: ROW_size_def sample_row_def)
  have "ROW_size sample_row \<le> 3" and "2 < ROW_size sample_row"
    by (simp_all add: sz)
  then show ?thesis
    using ClearColumn_bounds_check [of sample_row 3] ClearColumn_bounds_check [of sample_row 2] eq
    by blast
qed

text \<open>
  C7 as stated fails on the rows a \<open>Resize\<close> leaves when its attribute step fails: after
  a failed growth to 5 a column at or beyond the recorded width 3 is accepted, and after
  a failed shrinking to 2 a column below the recorded width 3 is refused.
\<close>

theorem ClearColumn_bounds_check_counterexample:
  "ROW_ctor 0 3 7 0 = Inr fresh_row3
   \<and> perform_all fresh_row3 [Call_Resize True False 5, Call_Reset True 9] ! 1 = (True, grown_row)
   \<and> ROW_size grown_row = 3
   \<and> ROW_size grown_row \<le> 4
   \<and> fst (ROW_ClearColumn 4 grown_row) = Inr ()
   \<and> perform_all fresh_row3 [Call_Resize True False 2, Call_Reset True 9] ! 1 = (True, shrunk_row)
   \<and> ROW_size shrunk_row = 3
   \<and> 2 < ROW_size shrunk_row
   \<and> ROW_ClearColumn 2 shrunk_row = (Inl invalid_argument, shrunk_row)"
  by code_simp




end
